theory Spec2Isabelle
  imports Main
begin

section \<open>The event hub of main.py and the upstream service of tiktok\_client.py\<close>

text \<open>
  The program is a FastAPI application. Its module \<^verbatim>\<open>main.py\<close> keeps three globals: the
  upstream service object \<^verbatim>\<open>tiktok_service\<close> (\<^verbatim>\<open>None\<close> until startup), the set
  \<^verbatim>\<open>active_connections\<close> of WebSocket objects and the list \<^verbatim>\<open>event_buffer\<close>.
  Every handler is a coroutine on one event loop: it runs alone until it waits for the
  network (an \<^verbatim>\<open>await\<close>), and other coroutines run while it waits. The two loops of
  \<^verbatim>\<open>main.py\<close> wait inside their bodies, so each is modelled twice: as the loop written
  in the source with what other coroutines do during each wait given as a schedule
  (\<open>send_to_all_live\<close>, \<open>replay_buffer_live\<close>), and as the run in which nothing
  else happens during the waits (\<open>send_to_all\<close>, \<open>replay_buffer\<close>), which is the
  first with an idle schedule.
\<close>

subsection \<open>Data\<close>

text \<open>A WebSocket object is known to the hub by its identity only.\<close>

type_synonym ws = nat

text \<open>
  The exceptions of the hub's own code: \<^verbatim>\<open>KeyError\<close> from \<^verbatim>\<open>set.remove\<close> on an absent
  element (\<^verbatim>\<open>main.py\<close>, line 169), and \<^verbatim>\<open>RuntimeError\<close> from the iterator of a set whose
  size has changed since the \<^verbatim>\<open>for\<close> loop over it began (line 38).
\<close>

datatype error = KeyError ws | RuntimeError

text \<open>
  The trace lists, in program order, what a handler did to the buffer, to the registry
  and on the wire. \<open>Send_json c e ok\<close> is one call \<^verbatim>\<open>c.send_json(e)\<close>; \<open>ok\<close> says
  whether it returned (\<open>True\<close>) or raised (\<open>False\<close>).
\<close>

datatype 'e effect =
    Buffer_append 'e
  | Buffer_pop 'e
  | Send_json ws 'e bool
  | Conn_add ws
  | Conn_difference_update "ws list"
  | Conn_remove ws

text \<open>
  The globals of \<^verbatim>\<open>main.py\<close> other than the service object. The Python set
  \<^verbatim>\<open>active_connections\<close> is kept as a list without repetitions: its elements in an
  order in which a \<^verbatim>\<open>for\<close> loop over the set may visit them (Python fixes none). The
  field \<open>world\<close> is everything outside
  the process that a send can touch (sockets, peers); its type is left open.
\<close>

record ('e, 'w) hub =
  active_connections :: "ws list"
  event_buffer :: "'e list"
  world :: 'w
  trace :: "'e effect list"

text \<open>
  \<^verbatim>\<open>websocket.send_json(data)\<close>, supplied by the transport: whether the call returned,
  and the world after it.
\<close>

type_synonym ('e, 'w) send_json = "ws \<Rightarrow> 'e \<Rightarrow> 'w \<Rightarrow> bool \<times> 'w"

definition MAX_BUFFER_SIZE :: nat where
  "MAX_BUFFER_SIZE = 50"

subsection \<open>Python's set operations on the list representation\<close>

definition set_add :: "ws \<Rightarrow> ws list \<Rightarrow> ws list" where
  "set_add c cs = (if c \<in> set cs then cs else cs @ [c])"

definition set_difference_update :: "ws list \<Rightarrow> ws list \<Rightarrow> ws list" where
  "set_difference_update cs ds = filter (\<lambda>c. c \<notin> set ds) cs"

definition set_remove :: "ws \<Rightarrow> ws list \<Rightarrow> error + ws list" where
  "set_remove c cs = (if c \<in> set cs then Inr (removeAll c cs) else Inl (KeyError c))"

subsection \<open>broadcast\_to\_websockets (main.py, lines 30 to 45)\<close>

text \<open>Lines 32 to 34: append, then one \<^verbatim>\<open>pop(0)\<close> when the list has grown past the bound.\<close>

definition store_event :: "'e \<Rightarrow> ('e, 'w) hub \<Rightarrow> ('e, 'w) hub" where
  "store_event data h =
     (let buf = event_buffer h @ [data];
          h1 = h\<lparr>event_buffer := buf, trace := trace h @ [Buffer_append data]\<rparr>
      in if length buf > MAX_BUFFER_SIZE
         then (case buf of
                 [] \<Rightarrow> h1
               | x # rest \<Rightarrow> h1\<lparr>event_buffer := rest, trace := trace h1 @ [Buffer_pop x]\<rparr>)
         else h1)"

text \<open>
  Lines 37 to 42: the loop over the connections, in the run in which no other coroutine
  touches the registry while a send is awaited. A send that raises is caught by the bare
  \<^verbatim>\<open>except\<close>, which adds the connection to the local set \<^verbatim>\<open>disconnected\<close>; the loop
  goes on with the next connection.
\<close>

fun send_to_all ::
  "('e, 'w) send_json \<Rightarrow> 'e \<Rightarrow> ws list \<Rightarrow> ws list \<Rightarrow> ('e, 'w) hub \<Rightarrow> ws list \<times> ('e, 'w) hub"
where
  "send_to_all send data [] disconnected h = (disconnected, h)"
| "send_to_all send data (connection # rest) disconnected h =
     (case send connection data (world h) of
        (ok, w) \<Rightarrow>
          send_to_all send data rest
            (if ok then disconnected else set_add connection disconnected)
            (h\<lparr>world := w, trace := trace h @ [Send_json connection data ok]\<rparr>))"

definition broadcast_to_websockets ::
  "('e, 'w) send_json \<Rightarrow> 'e \<Rightarrow> ('e, 'w) hub \<Rightarrow> error + ('e, 'w) hub"
where
  "broadcast_to_websockets send data h =
     (let h1 = store_event data h
      in case send_to_all send data (active_connections h1) [] h1 of
           (disconnected, h2) \<Rightarrow>
             Inr (h2\<lparr>active_connections :=
                        set_difference_update (active_connections h2) disconnected,
                      trace := trace h2 @ [Conn_difference_update disconnected]\<rparr>))"

text \<open>The upstream feeds events one at a time, each call running to its end.\<close>

fun ingest_all ::
  "('e, 'w) send_json \<Rightarrow> 'e list \<Rightarrow> ('e, 'w) hub \<Rightarrow> error + ('e, 'w) hub"
where
  "ingest_all send [] h = Inr h"
| "ingest_all send (data # rest) h =
     (case broadcast_to_websockets send data h of
        Inl e \<Rightarrow> Inl e
      | Inr h' \<Rightarrow> ingest_all send rest h')"

subsection \<open>websocket\_endpoint (main.py, lines 152 to 169)\<close>

text \<open>
  Lines 158 to 162: the replay of the buffer to the new connection, in the run in which
  no event is ingested while a send is awaited. The first send that raises ends the loop
  (\<^verbatim>\<open>break\<close>); nothing else happens in the handler of the exception.
\<close>

fun replay_buffer ::
  "('e, 'w) send_json \<Rightarrow> ws \<Rightarrow> 'e list \<Rightarrow> ('e, 'w) hub \<Rightarrow> ('e, 'w) hub"
where
  "replay_buffer send websocket [] h = h"
| "replay_buffer send websocket (event # rest) h =
     (case send websocket event (world h) of
        (ok, w) \<Rightarrow>
          (let h' = h\<lparr>world := w, trace := trace h @ [Send_json websocket event ok]\<rparr>
           in if ok then replay_buffer send websocket rest h' else h'))"

text \<open>
  Lines 154 to 162, after \<^verbatim>\<open>accept\<close> has returned: the connection is added to the set,
  then the buffer is replayed. After this phase the coroutine waits in
  \<^verbatim>\<open>receive_text\<close> (lines 165 to 167), which touches no global.
\<close>

definition websocket_endpoint_open ::
  "('e, 'w) send_json \<Rightarrow> ws \<Rightarrow> ('e, 'w) hub \<Rightarrow> error + ('e, 'w) hub"
where
  "websocket_endpoint_open send websocket h =
     (let h1 = h\<lparr>active_connections := set_add websocket (active_connections h),
                  trace := trace h @ [Conn_add websocket]\<rparr>
      in Inr (replay_buffer send websocket (event_buffer h1) h1))"

text \<open>
  Lines 168 and 169: \<^verbatim>\<open>receive_text\<close> has raised \<^verbatim>\<open>WebSocketDisconnect\<close>, and the handler
  calls \<^verbatim>\<open>active_connections.remove(websocket)\<close>.
\<close>

definition websocket_endpoint_close ::
  "ws \<Rightarrow> ('e, 'w) hub \<Rightarrow> error + ('e, 'w) hub"
where
  "websocket_endpoint_close websocket h =
     (case set_remove websocket (active_connections h) of
        Inl e \<Rightarrow> Inl e
      | Inr cs \<Rightarrow> Inr (h\<lparr>active_connections := cs, trace := trace h @ [Conn_remove websocket]\<rparr>))"

subsection \<open>The two loops with other coroutines running during their waits\<close>

text \<open>
  What an endpoint coroutine can do to the registry while the fan-out awaits a send: a
  new connection reaches line 155 (\<^verbatim>\<open>add\<close>), or the handler of
  \<^verbatim>\<open>WebSocketDisconnect\<close> reaches line 169 (\<^verbatim>\<open>remove\<close>, whose \<^verbatim>\<open>KeyError\<close> is raised in
  that other coroutine and leaves the registry as it is). A schedule gives, for each
  awaited send in turn, at most one such step; past its end nothing happens.
\<close>

datatype registry_op = Join ws | Leave ws

fun during_send :: "registry_op option \<Rightarrow> ('e, 'w) hub \<Rightarrow> ('e, 'w) hub" where
  "during_send None h = h"
| "during_send (Some (Join c)) h =
     h\<lparr>active_connections := set_add c (active_connections h),
       trace := trace h @ [Conn_add c]\<rparr>"
| "during_send (Some (Leave c)) h =
     (case websocket_endpoint_close c h of Inl e \<Rightarrow> h | Inr h' \<Rightarrow> h')"

text \<open>
  Lines 38 to 42 as written: a \<^verbatim>\<open>for\<close> loop over the set itself. The iterator remembers
  the size of the set at the start of the loop (\<open>used\<close>); each time the loop asks it for
  the next connection it first compares that size with the present one and raises
  \<^verbatim>\<open>RuntimeError\<close> when they differ. The request is outside the \<^verbatim>\<open>try\<close>, so the exception
  leaves the function. The result holds the exception, if any, the local set
  \<^verbatim>\<open>disconnected\<close> and the globals.
\<close>

fun send_to_all_live ::
  "('e, 'w) send_json \<Rightarrow> 'e \<Rightarrow> nat \<Rightarrow> ws list \<Rightarrow> registry_op option list \<Rightarrow> ws list \<Rightarrow>
     ('e, 'w) hub \<Rightarrow> error option \<times> ws list \<times> ('e, 'w) hub"
where
  "send_to_all_live send data used [] sched disconnected h =
     (if length (active_connections h) \<noteq> used then (Some RuntimeError, disconnected, h)
      else (None, disconnected, h))"
| "send_to_all_live send data used (connection # rest) sched disconnected h =
     (if length (active_connections h) \<noteq> used then (Some RuntimeError, disconnected, h)
      else
        (case send connection data (world h) of
           (ok, w) \<Rightarrow>
             send_to_all_live send data used rest (tl sched)
               (if ok then disconnected else set_add connection disconnected)
               (during_send (case sched of [] \<Rightarrow> None | op # later \<Rightarrow> op)
                  (h\<lparr>world := w, trace := trace h @ [Send_json connection data ok]\<rparr>))))"

text \<open>
  Lines 30 to 45 as written. An exception skips the cleanup of line 45. The result is the
  exception that leaves the call, if any, and the globals as the call leaves them.
\<close>

definition broadcast_to_websockets_live ::
  "('e, 'w) send_json \<Rightarrow> 'e \<Rightarrow> registry_op option list \<Rightarrow> ('e, 'w) hub \<Rightarrow>
     error option \<times> ('e, 'w) hub"
where
  "broadcast_to_websockets_live send data sched h =
     (let h1 = store_event data h
      in case send_to_all_live send data (length (active_connections h1))
                (active_connections h1) sched [] h1 of
           (Some e, disconnected, h2) \<Rightarrow> (Some e, h2)
         | (None, disconnected, h2) \<Rightarrow>
             (None,
              h2\<lparr>active_connections :=
                    set_difference_update (active_connections h2) disconnected,
                  trace := trace h2 @ [Conn_difference_update disconnected]\<rparr>))"

text \<open>
  The events that the upstream ingests while the replay awaits one send, each by a whole
  call of \<^verbatim>\<open>broadcast_to_websockets\<close>; what matters afterwards is the globals it leaves.
\<close>

fun ingested_meanwhile ::
  "('e, 'w) send_json \<Rightarrow> 'e list \<Rightarrow> ('e, 'w) hub \<Rightarrow> ('e, 'w) hub"
where
  "ingested_meanwhile send [] h = h"
| "ingested_meanwhile send (data # rest) h =
     ingested_meanwhile send rest (snd (broadcast_to_websockets_live send data [] h))"

text \<open>
  Lines 158 to 162 as written: a \<^verbatim>\<open>for\<close> loop over the list \<^verbatim>\<open>event_buffer\<close> itself. The
  iterator of a list keeps an index \<open>i\<close>; each time it is asked, it yields the element
  at that index of the list as it is then, or stops when the index has reached the
  length. The schedule gives, for each awaited send in turn, the events ingested during
  it.
\<close>

function replay_buffer_live ::
  "('e, 'w) send_json \<Rightarrow> ws \<Rightarrow> nat \<Rightarrow> 'e list list \<Rightarrow> ('e, 'w) hub \<Rightarrow> ('e, 'w) hub"
where
  "replay_buffer_live send websocket i sched h =
     (if i < length (event_buffer h)
      then (case send websocket (event_buffer h ! i) (world h) of
              (ok, w) \<Rightarrow>
                (let h' = h\<lparr>world := w,
                            trace := trace h @ [Send_json websocket (event_buffer h ! i) ok]\<rparr>
                 in if ok
                    then (case sched of
                            [] \<Rightarrow> replay_buffer_live send websocket (Suc i) [] h'
                          | evs # later \<Rightarrow>
                              replay_buffer_live send websocket (Suc i) later
                                (ingested_meanwhile send evs h'))
                    else h'))
      else h)"
  by pat_completeness auto
termination
  by (relation "measures [\<lambda>(send, websocket, i, sched, h). length sched,
                          \<lambda>(send, websocket, i, sched, h). length (event_buffer h) - i]")
     auto

declare replay_buffer_live.simps [simp del]

text \<open>Lines 154 to 162 as written, after \<^verbatim>\<open>accept\<close> has returned.\<close>

definition websocket_endpoint_open_live ::
  "('e, 'w) send_json \<Rightarrow> ws \<Rightarrow> 'e list list \<Rightarrow> ('e, 'w) hub \<Rightarrow> ('e, 'w) hub"
where
  "websocket_endpoint_open_live send websocket sched h =
     (let h1 = h\<lparr>active_connections := set_add websocket (active_connections h),
                  trace := trace h @ [Conn_add websocket]\<rparr>
      in replay_buffer_live send websocket 0 sched h1)"

subsection \<open>The service object (tiktok\_client.py)\<close>

text \<open>
  An event is a Python dict with string keys; the model keeps it as the list of its items
  in insertion order.
\<close>

datatype jvalue = Str string | Num int | Bool bool | Null

type_synonym data = "(string \<times> jvalue) list"

text \<open>
  The fields of \<^verbatim>\<open>TikTokService\<close> that its own code reads and writes. The field
  \<^verbatim>\<open>client\<close> belongs to the TikTokLive library; what the handlers read from it
  (\<^verbatim>\<open>room_id\<close>) is an argument of the model. \<open>'c\<close> is the type of the registered
  callables.
\<close>

record 'c TikTokService =
  callbacks :: "'c list"
  is_connected :: bool

definition init_service :: "'c TikTokService" where
  "init_service = \<lparr>callbacks = [], is_connected = False\<rparr>"

definition register_callback :: "'c \<Rightarrow> 'c TikTokService \<Rightarrow> 'c TikTokService" where
  "register_callback callback svc = svc\<lparr>callbacks := callbacks svc @ [callback]\<rparr>"

definition unregister_callback :: "'c \<Rightarrow> 'c TikTokService \<Rightarrow> 'c TikTokService" where
  "unregister_callback callback svc =
     (if callback \<in> set (callbacks svc)
      then svc\<lparr>callbacks := remove1 callback (callbacks svc)\<rparr>
      else svc)"

text \<open>
  \<^verbatim>\<open>_broadcast\<close> (lines 58 to 64). \<open>call\<close> runs one callable on the state \<open>'h\<close> that
  the callables act on and says whether it returned or raised an \<^verbatim>\<open>Exception\<close>, which
  is caught and printed; the loop goes on, so both outcomes continue in the same way.
  (An exception outside the class \<^verbatim>\<open>Exception\<close>, such as a cancellation of the coroutine,
  is not caught; no callable of the model raises one.)
\<close>

fun service_broadcast ::
  "('c \<Rightarrow> 'd \<Rightarrow> 'h \<Rightarrow> bool \<times> 'h) \<Rightarrow> 'c list \<Rightarrow> 'd \<Rightarrow> 'h \<Rightarrow> 'h"
where
  "service_broadcast call [] data h = h"
| "service_broadcast call (callback # rest) data h =
     (case call callback data h of (ok, h') \<Rightarrow> service_broadcast call rest data h')"


definition disconnect_event :: data where
  "disconnect_event = [(''type'', Str ''system''), (''message'', Str ''Desconectado del live'')]"


definition on_disconnect ::
  "('c \<Rightarrow> data \<Rightarrow> 'h \<Rightarrow> bool \<times> 'h) \<Rightarrow> 'c TikTokService \<Rightarrow> 'h \<Rightarrow> 'c TikTokService \<times> 'h"
where
  "on_disconnect call svc h =
     (let svc' = svc\<lparr>is_connected := False\<rparr>
      in (svc', service_broadcast call (callbacks svc') disconnect_event h))"

subsection \<open>The wiring of startup\_event (main.py, lines 23 to 50)\<close>

text \<open>
  \<^verbatim>\<open>startup_event\<close> creates the service (line 27), whose constructor is
  \<open>init_service\<close>, and registers one callable with it (line 47): the closure
  \<^verbatim>\<open>broadcast_to_websockets\<close>. Until then the global \<^verbatim>\<open>tiktok_service\<close> is \<^verbatim>\<open>None\<close>.
\<close>

datatype callback = Broadcast_to_websockets

text \<open>
  The callable as the service calls it, with what other coroutines do during the waits of
  its fan-out. The service sees whether the call returned; the globals are as the call
  left them.
\<close>

definition call_callback_live ::
  "('e, 'w) send_json \<Rightarrow> registry_op option list \<Rightarrow> callback \<Rightarrow> 'e \<Rightarrow> ('e, 'w) hub \<Rightarrow>
     bool \<times> ('e, 'w) hub"
where
  "call_callback_live send sched cb data h =
     (case cb of
        Broadcast_to_websockets \<Rightarrow>
          (case broadcast_to_websockets_live send data sched h of
             (None, h') \<Rightarrow> (True, h')
           | (Some e, h') \<Rightarrow> (False, h')))"

text \<open>The call during which no other coroutine runs.\<close>

definition call_callback ::
  "('e, 'w) send_json \<Rightarrow> callback \<Rightarrow> 'e \<Rightarrow> ('e, 'w) hub \<Rightarrow> bool \<times> ('e, 'w) hub"
where
  "call_callback send cb data h = call_callback_live send [] cb data h"

subsection \<open>The REST queries (main.py, lines 172 to 189)\<close>

text \<open>
  The state of the application: the global \<^verbatim>\<open>tiktok_service\<close> and the other globals.
  A query returns its answer and the state it leaves. \<^verbatim>\<open>Config.TIKTOK_USERNAME\<close> comes
  from a module outside the sources and is an argument.
\<close>

type_synonym ('e, 'w) app = "callback TikTokService option \<times> ('e, 'w) hub"

record status =
  connected :: bool
  username :: string
  active_websockets :: nat
  buffered_events :: nat

definition get_status :: "string \<Rightarrow> ('e, 'w) app \<Rightarrow> status \<times> ('e, 'w) app" where
  "get_status config_username app =
     (case app of
        (tiktok_service, h) \<Rightarrow>
          (\<lparr>connected = (case tiktok_service of None \<Rightarrow> False | Some svc \<Rightarrow> is_connected svc),
            username = config_username,
            active_websockets = length (active_connections h),
            buffered_events = length (event_buffer h)\<rparr>,
           app))"

record 'e recent_events =
  events :: "'e list"
  count :: nat

definition get_recent_events :: "('e, 'w) app \<Rightarrow> 'e recent_events \<times> ('e, 'w) app" where
  "get_recent_events app =
     (case app of
        (tiktok_service, h) \<Rightarrow>
          (\<lparr>events = event_buffer h, count = length (event_buffer h)\<rparr>, app))"

subsection \<open>Reading the trace\<close>

text \<open>The effects that a step from \<open>h\<close> to \<open>h'\<close> added to the trace.\<close>

definition effects_of :: "('e, 'w) hub \<Rightarrow> ('e, 'w) hub \<Rightarrow> 'e effect list" where
  "effects_of h h' = drop (length (trace h)) (trace h')"

text \<open>The calls of \<^verbatim>\<open>send_json\<close> in a trace, in order: connection, event, outcome.\<close>

fun sends :: "'e effect list \<Rightarrow> (ws \<times> 'e \<times> bool) list" where
  "sends [] = []"
| "sends (Send_json c e ok # fx) = (c, e, ok) # sends fx"
| "sends (Buffer_append e # fx) = sends fx"
| "sends (Buffer_pop e # fx) = sends fx"
| "sends (Conn_add c # fx) = sends fx"
| "sends (Conn_difference_update cs # fx) = sends fx"
| "sends (Conn_remove c # fx) = sends fx"



text \<open>The events that reached connection \<open>c\<close>, in order.\<close>

definition delivered :: "ws \<Rightarrow> 'e effect list \<Rightarrow> 'e list" where
  "delivered c fx = map (\<lambda>(c', e, ok). e) (filter (\<lambda>(c', e, ok). c' = c \<and> ok) (sends fx))"

text \<open>The effects that change the registry.\<close>

fun changes_registry :: "'e effect \<Rightarrow> bool" where
  "changes_registry (Conn_add c) = True"
| "changes_registry (Conn_difference_update cs) = True"
| "changes_registry (Conn_remove c) = True"
| "changes_registry (Send_json c e ok) = False"
| "changes_registry (Buffer_append e) = False"
| "changes_registry (Buffer_pop e) = False"

text \<open>The effects of one pass over the connections \<open>cs\<close> with the outcomes \<open>oks\<close>.\<close>

definition wire :: "'e \<Rightarrow> ws list \<Rightarrow> bool list \<Rightarrow> 'e effect list" where
  "wire data cs oks = map (\<lambda>(c, ok). Send_json c data ok) (zip cs oks)"


text \<open>A schedule in which no other coroutine touches the registry.\<close>

definition quiet :: "registry_op option list \<Rightarrow> bool" where
  "quiet sched = list_all (\<lambda>op. op = None) sched"

subsection \<open>Transports and states for the worked examples\<close>

definition send_ok :: "('e, unit) send_json" where
  "send_ok c e w = (True, w)"

definition send_broken :: "('e, unit) send_json" where
  "send_broken c e w = (False, w)"

definition send_broken_for :: "ws \<Rightarrow> ('e, unit) send_json" where
  "send_broken_for bad c e w = (c \<noteq> bad, w)"

definition hub_with :: "ws list \<Rightarrow> 'e list \<Rightarrow> ('e, unit) hub" where
  "hub_with cs buf = \<lparr>active_connections = cs, event_buffer = buf, world = (), trace = []\<rparr>"

text \<open>
  A world that keeps what reached the peers, in order: a send to a connection of
  \<open>broken\<close> raises and delivers nothing, any other send delivers the event.
\<close>

definition send_recording :: "ws list \<Rightarrow> ('e, (ws \<times> 'e) list) send_json" where
  "send_recording broken c e w = (if c \<in> set broken then (False, w) else (True, w @ [(c, e)]))"

definition hub_recording :: "ws list \<Rightarrow> 'e list \<Rightarrow> ('e, (ws \<times> 'e) list) hub" where
  "hub_recording cs buf =
     \<lparr>active_connections = cs, event_buffer = buf, world = [], trace = []\<rparr>"

section \<open>Properties of the buffer\<close>

lemma store_event_buffer:
  "event_buffer (store_event data h) =
     (if length (event_buffer h) \<ge> MAX_BUFFER_SIZE
      then tl (event_buffer h @ [data]) else event_buffer h @ [data])"
  by (cases "event_buffer h") (simp_all add: store_event_def Let_def MAX_BUFFER_SIZE_def)

lemma send_to_all_buffer:
  "event_buffer (snd (send_to_all send data cs ds h)) = event_buffer h"
  by (induction cs arbitrary: ds h) (simp_all split: prod.splits)

lemma broadcast_buffer:
  "\<exists>h'. broadcast_to_websockets send data h = Inr h' \<and>
        event_buffer h' = event_buffer (store_event data h)"
proof -
  obtain ds h2 where
    s: "send_to_all send data (active_connections (store_event data h)) [] (store_event data h)
          = (ds, h2)"
    by (cases "send_to_all send data (active_connections (store_event data h)) []
                 (store_event data h)")
  have "event_buffer h2 = event_buffer (store_event data h)"
    using send_to_all_buffer [of send data "active_connections (store_event data h)" "[]"
        "store_event data h"] s by simp
  then show ?thesis
    by (simp add: broadcast_to_websockets_def Let_def s)
qed

lemma store_event_length:
  "length (event_buffer h) \<le> MAX_BUFFER_SIZE \<Longrightarrow>
   length (event_buffer (store_event data h)) \<le> MAX_BUFFER_SIZE"
  by (simp add: store_event_buffer)

lemma store_event_drop:
  "length (event_buffer h) \<le> MAX_BUFFER_SIZE \<Longrightarrow>
   event_buffer (store_event data h) =
     drop (length (event_buffer h) + 1 - MAX_BUFFER_SIZE) (event_buffer h @ [data])"
  by (cases "event_buffer h") (simp_all add: store_event_buffer MAX_BUFFER_SIZE_def)

lemma drop_append_short:
  "k \<le> length xs \<Longrightarrow> drop k xs @ ys = drop k (xs @ ys)"
  by simp

lemma ingest_all_buffer:
  "length (event_buffer h) \<le> MAX_BUFFER_SIZE \<Longrightarrow>
   \<exists>h'. ingest_all send evs h = Inr h' \<and>
        event_buffer h' =
          drop (length (event_buffer h) + length evs - MAX_BUFFER_SIZE) (event_buffer h @ evs)"
proof (induction evs arbitrary: h)
  case Nil
  then show ?case by simp
next
  case (Cons e es)
  obtain h1 where h1: "broadcast_to_websockets send e h = Inr h1"
    and b1: "event_buffer h1 = event_buffer (store_event e h)"
    using broadcast_buffer [of send e h] by blast
  have len1: "length (event_buffer h1) \<le> MAX_BUFFER_SIZE"
    using Cons.prems b1 store_event_length by metis
  obtain h' where h': "ingest_all send es h1 = Inr h'"
    and b': "event_buffer h' =
       drop (length (event_buffer h1) + length es - MAX_BUFFER_SIZE) (event_buffer h1 @ es)"
    using Cons.IH [OF len1] by blast
  let ?k = "length (event_buffer h) + 1 - MAX_BUFFER_SIZE"
  have e1: "event_buffer h1 = drop ?k (event_buffer h @ [e])"
    using b1 store_event_drop [OF Cons.prems] by simp
  have k: "?k \<le> length (event_buffer h @ [e])" by simp
  have "event_buffer h1 @ es = drop ?k ((event_buffer h @ [e]) @ es)"
    unfolding e1 by (rule drop_append_short [OF k])
  then have c1: "event_buffer h1 @ es = drop ?k (event_buffer h @ e # es)"
    by simp
  have c2: "length (event_buffer h1) + length es - MAX_BUFFER_SIZE + ?k =
      length (event_buffer h) + length (e # es) - MAX_BUFFER_SIZE"
    using e1 Cons.prems by (simp add: MAX_BUFFER_SIZE_def)
  have "event_buffer h' =
      drop (length (event_buffer h1) + length es - MAX_BUFFER_SIZE)
        (drop ?k (event_buffer h @ e # es))"
    using b' c1 by (simp only:)
  also have "\<dots> = drop (length (event_buffer h1) + length es - MAX_BUFFER_SIZE + ?k)
        (event_buffer h @ e # es)"
    by (simp only: drop_drop)
  finally have "event_buffer h' =
      drop (length (event_buffer h) + length (e # es) - MAX_BUFFER_SIZE)
        (event_buffer h @ e # es)"
    by (simp only: c2)
  then show ?case using h1 h' by simp
qed

section \<open>Properties of the trace\<close>

lemma effects_of_append: "trace h' = trace h @ fx \<Longrightarrow> effects_of h h' = fx"
  by (simp add: effects_of_def)

lemma store_event_fields:
  "active_connections (store_event data h) = active_connections h"
  "world (store_event data h) = world h"
  by (simp_all add: store_event_def Let_def split: list.splits)

lemma store_event_trace:
  "trace (store_event data h) =
     trace h @ Buffer_append data #
       (if length (event_buffer h) \<ge> MAX_BUFFER_SIZE
        then [Buffer_pop (hd (event_buffer h @ [data]))] else [])"
  by (cases "event_buffer h") (simp_all add: store_event_def Let_def MAX_BUFFER_SIZE_def)

lemma send_to_all_fields:
  "active_connections (snd (send_to_all send data cs ds h)) = active_connections h"
  by (induction cs arbitrary: ds h) (simp_all split: prod.splits)

lemma send_to_all_trace:
  "\<exists>oks. length oks = length cs \<and>
     trace (snd (send_to_all send data cs ds h)) = trace h @ wire data cs oks \<and>
     set (fst (send_to_all send data cs ds h)) = set ds \<union> {c. (c, False) \<in> set (zip cs oks)} \<and>
     (\<forall>p \<in> set (zip cs oks). \<exists>w. fst (send (fst p) data w) = snd p)"
proof (induction cs arbitrary: ds h)
  case Nil
  show ?case by (simp add: wire_def)
next
  case (Cons c cs)
  obtain ok w where s: "send c data (world h) = (ok, w)"
    by (cases "send c data (world h)")
  let ?ds = "if ok then ds else set_add c ds"
  let ?h = "h\<lparr>world := w, trace := trace h @ [Send_json c data ok]\<rparr>"
  obtain oks where l: "length oks = length cs"
    and t: "trace (snd (send_to_all send data cs ?ds ?h)) = trace ?h @ wire data cs oks"
    and d: "set (fst (send_to_all send data cs ?ds ?h)) =
              set ?ds \<union> {c. (c, False) \<in> set (zip cs oks)}"
    and o: "\<forall>p \<in> set (zip cs oks). \<exists>w. fst (send (fst p) data w) = snd p"
    using Cons.IH [of ?ds ?h] by blast
  have r: "send_to_all send data (c # cs) ds h = send_to_all send data cs ?ds ?h"
    by (simp add: s)
  have "length (ok # oks) = length (c # cs)" using l by simp
  moreover have "trace (snd (send_to_all send data (c # cs) ds h)) =
      trace h @ wire data (c # cs) (ok # oks)"
    using t r by (simp add: wire_def)
  moreover have "set (fst (send_to_all send data (c # cs) ds h)) =
      set ds \<union> {x. (x, False) \<in> set (zip (c # cs) (ok # oks))}"
    using d r by (auto simp: set_add_def)
  moreover have "\<forall>p \<in> set (zip (c # cs) (ok # oks)). \<exists>w. fst (send (fst p) data w) = snd p"
  proof -
    have "fst (send c data (world h)) = ok" using s by simp
    then have "\<exists>w. fst (send c data w) = ok" by blast
    then show ?thesis using o by simp
  qed
  ultimately show ?case by blast
qed

lemma sends_append: "sends (xs @ ys) = sends xs @ sends ys"
  by (induction xs rule: sends.induct) simp_all

lemma sends_wire:
  "sends (wire data cs oks) = map (\<lambda>(c, ok). (c, data, ok)) (zip cs oks)"
  by (induction cs arbitrary: oks) (auto simp: wire_def split: list.splits  simp: zip_Cons1)



lemma wire_no_registry: "filter changes_registry (wire data cs oks) = []"
  by (auto simp: wire_def filter_empty_conv)

lemma broadcast_shape:
  "\<exists>oks ds h'.
     length oks = length (active_connections h) \<and>
     set ds = {c. (c, False) \<in> set (zip (active_connections h) oks)} \<and>
     (\<forall>p \<in> set (zip (active_connections h) oks). \<exists>w. fst (send (fst p) data w) = snd p) \<and>
     broadcast_to_websockets send data h = Inr h' \<and>
     event_buffer h' = event_buffer (store_event data h) \<and>
     active_connections h' = filter (\<lambda>c. c \<notin> set ds) (active_connections h) \<and>
     trace h' = trace (store_event data h) @ wire data (active_connections h) oks @
                  [Conn_difference_update ds]"
proof -
  let ?h1 = "store_event data h"
  let ?cs = "active_connections h"
  obtain ds h2 where s: "send_to_all send data ?cs [] ?h1 = (ds, h2)"
    by (cases "send_to_all send data ?cs [] ?h1")
  obtain oks where l: "length oks = length ?cs"
    and t: "trace h2 = trace ?h1 @ wire data ?cs oks"
    and d: "set ds = {c. (c, False) \<in> set (zip ?cs oks)}"
    and o: "\<forall>p \<in> set (zip ?cs oks). \<exists>w. fst (send (fst p) data w) = snd p"
    using send_to_all_trace [where send = send and data = data and cs = ?cs and ds = "[]"
        and h = ?h1] s by auto
  have b: "event_buffer h2 = event_buffer ?h1"
    using send_to_all_buffer [of send data ?cs "[]" ?h1] s by simp
  have a: "active_connections h2 = ?cs"
    using send_to_all_fields [of send data ?cs "[]" ?h1] s by (simp add: store_event_fields)
  let ?h' = "h2\<lparr>active_connections := set_difference_update (active_connections h2) ds,
                 trace := trace h2 @ [Conn_difference_update ds]\<rparr>"
  have r: "broadcast_to_websockets send data h = Inr ?h'"
    by (simp add: broadcast_to_websockets_def Let_def store_event_fields s)
  have "event_buffer ?h' = event_buffer ?h1" using b by simp
  moreover have "active_connections ?h' = filter (\<lambda>c. c \<notin> set ds) ?cs"
    using a by (simp add: set_difference_update_def)
  moreover have "trace ?h' = trace ?h1 @ wire data ?cs oks @ [Conn_difference_update ds]"
    using t by simp
  ultimately show ?thesis using l d o r by blast
qed

lemma replay_buffer_fields:
  "active_connections (replay_buffer send c evs h) = active_connections h"
  "event_buffer (replay_buffer send c evs h) = event_buffer h"
  by (induction evs arbitrary: h) (simp_all add: Let_def split: prod.splits)

lemma replay_buffer_trace:
  "trace (replay_buffer send c evs h) = trace h @ map (\<lambda>e. Send_json c e True) evs \<or>
   (\<exists>pre e post. evs = pre @ e # post \<and>
      trace (replay_buffer send c evs h) =
        trace h @ map (\<lambda>x. Send_json c x True) pre @ [Send_json c e False])"
proof (induction evs arbitrary: h)
  case Nil
  show ?case by simp
next
  case (Cons ev evs)
  obtain ok w where s: "send c ev (world h) = (ok, w)"
    by (cases "send c ev (world h)")
  let ?h = "h\<lparr>world := w, trace := trace h @ [Send_json c ev ok]\<rparr>"
  show ?case
  proof (cases ok)
    case False
    then have "trace (replay_buffer send c (ev # evs) h) =
        trace h @ map (\<lambda>x. Send_json c x True) [] @ [Send_json c ev False]"
      using s by simp
    moreover have "ev # evs = [] @ ev # evs" by simp
    ultimately show ?thesis by blast
  next
    case True
    then have r: "replay_buffer send c (ev # evs) h = replay_buffer send c evs ?h"
      using s by simp
    from Cons.IH [of ?h] show ?thesis
    proof
      assume "trace (replay_buffer send c evs ?h) =
          trace ?h @ map (\<lambda>e. Send_json c e True) evs"
      then show ?thesis using r True by simp
    next
      assume "\<exists>pre e post. evs = pre @ e # post \<and>
          trace (replay_buffer send c evs ?h) =
            trace ?h @ map (\<lambda>x. Send_json c x True) pre @ [Send_json c e False]"
      then obtain pre e post where e: "evs = pre @ e # post"
        and t: "trace (replay_buffer send c evs ?h) =
            trace ?h @ map (\<lambda>x. Send_json c x True) pre @ [Send_json c e False]"
        by blast
      have "ev # evs = (ev # pre) @ e # post" using e by simp
      moreover have "trace (replay_buffer send c (ev # evs) h) =
          trace h @ map (\<lambda>x. Send_json c x True) (ev # pre) @ [Send_json c e False]"
        using t r True by simp
      ultimately show ?thesis by blast
    qed
  qed
qed

lemma replay_buffer_no_failure:
  "\<forall>e w. fst (send c e w) \<Longrightarrow>
   trace (replay_buffer send c evs h) = trace h @ map (\<lambda>e. Send_json c e True) evs"
proof (induction evs arbitrary: h)
  case Nil
  show ?case by simp
next
  case (Cons ev evs)
  obtain ok w where s: "send c ev (world h) = (ok, w)"
    by (cases "send c ev (world h)")
  have "fst (send c ev (world h))" using Cons.prems by blast
  then have ok using s by simp
  then show ?case using s Cons.IH [OF Cons.prems] by simp
qed


lemma broadcast_effects:
  "\<exists>oks ds h'.
     length oks = length (active_connections h) \<and>
     set ds = {c. (c, False) \<in> set (zip (active_connections h) oks)} \<and>
     (\<forall>p \<in> set (zip (active_connections h) oks). \<exists>w. fst (send (fst p) data w) = snd p) \<and>
     broadcast_to_websockets send data h = Inr h' \<and>
     event_buffer h' = event_buffer (store_event data h) \<and>
     active_connections h' = filter (\<lambda>c. c \<notin> set ds) (active_connections h) \<and>
     effects_of h h' =
       Buffer_append data #
         (if length (event_buffer h) \<ge> MAX_BUFFER_SIZE
          then [Buffer_pop (hd (event_buffer h @ [data]))] else []) @
         wire data (active_connections h) oks @ [Conn_difference_update ds]"
proof -
  obtain oks ds h' where
    "length oks = length (active_connections h)"
    "set ds = {c. (c, False) \<in> set (zip (active_connections h) oks)}"
    "\<forall>p \<in> set (zip (active_connections h) oks). \<exists>w. fst (send (fst p) data w) = snd p"
    "broadcast_to_websockets send data h = Inr h'"
    "event_buffer h' = event_buffer (store_event data h)"
    "active_connections h' = filter (\<lambda>c. c \<notin> set ds) (active_connections h)"
    and t: "trace h' = trace (store_event data h) @ wire data (active_connections h) oks @
                  [Conn_difference_update ds]"
    using broadcast_shape [of h send data] by blast
  moreover have "effects_of h h' =
       Buffer_append data #
         (if length (event_buffer h) \<ge> MAX_BUFFER_SIZE
          then [Buffer_pop (hd (event_buffer h @ [data]))] else []) @
         wire data (active_connections h) oks @ [Conn_difference_update ds]"
    by (rule effects_of_append) (simp add: t store_event_trace)
  ultimately show ?thesis by blast
qed

lemma open_effects:
  "\<exists>h'. websocket_endpoint_open send c h = Inr h' \<and>
     active_connections h' = set_add c (active_connections h) \<and>
     event_buffer h' = event_buffer h \<and>
     (effects_of h h' = Conn_add c # map (\<lambda>e. Send_json c e True) (event_buffer h) \<or>
      (\<exists>pre e post. event_buffer h = pre @ e # post \<and>
         effects_of h h' =
           Conn_add c # map (\<lambda>x. Send_json c x True) pre @ [Send_json c e False]))"
proof -
  let ?h1 = "h\<lparr>active_connections := set_add c (active_connections h),
               trace := trace h @ [Conn_add c]\<rparr>"
  let ?h' = "replay_buffer send c (event_buffer h) ?h1"
  have r: "websocket_endpoint_open send c h = Inr ?h'"
    by (simp add: websocket_endpoint_open_def Let_def)
  have a: "active_connections ?h' = set_add c (active_connections h)"
    by (simp add: replay_buffer_fields)
  have b: "event_buffer ?h' = event_buffer h"
    by (simp add: replay_buffer_fields)
  from replay_buffer_trace [of send c "event_buffer h" ?h1]
  have "effects_of h ?h' = Conn_add c # map (\<lambda>e. Send_json c e True) (event_buffer h) \<or>
      (\<exists>pre e post. event_buffer h = pre @ e # post \<and>
         effects_of h ?h' =
           Conn_add c # map (\<lambda>x. Send_json c x True) pre @ [Send_json c e False])"
  proof
    assume "trace ?h' = trace ?h1 @ map (\<lambda>e. Send_json c e True) (event_buffer h)"
    then have "effects_of h ?h' = Conn_add c # map (\<lambda>e. Send_json c e True) (event_buffer h)"
      by (intro effects_of_append) simp
    then show ?thesis by blast
  next
    assume "\<exists>pre e post. event_buffer h = pre @ e # post \<and>
        trace ?h' = trace ?h1 @ map (\<lambda>x. Send_json c x True) pre @ [Send_json c e False]"
    then obtain pre e post where e: "event_buffer h = pre @ e # post"
      and t: "trace ?h' = trace ?h1 @ map (\<lambda>x. Send_json c x True) pre @ [Send_json c e False]"
      by blast
    have "effects_of h ?h' =
        Conn_add c # map (\<lambda>x. Send_json c x True) pre @ [Send_json c e False]"
      by (rule effects_of_append) (simp add: t)
    then show ?thesis using e by blast
  qed
  then show ?thesis using r a b by blast
qed

lemma open_effects_no_failure:
  assumes "\<forall>e w. fst (send c e w)"
  shows "\<exists>h'. websocket_endpoint_open send c h = Inr h' \<and>
     active_connections h' = set_add c (active_connections h) \<and>
     event_buffer h' = event_buffer h \<and>
     effects_of h h' = Conn_add c # map (\<lambda>e. Send_json c e True) (event_buffer h)"
proof -
  let ?h1 = "h\<lparr>active_connections := set_add c (active_connections h),
               trace := trace h @ [Conn_add c]\<rparr>"
  let ?h' = "replay_buffer send c (event_buffer h) ?h1"
  have r: "websocket_endpoint_open send c h = Inr ?h'"
    by (simp add: websocket_endpoint_open_def Let_def)
  have "trace ?h' = trace ?h1 @ map (\<lambda>e. Send_json c e True) (event_buffer h)"
    using assms by (rule replay_buffer_no_failure)
  then have "effects_of h ?h' = Conn_add c # map (\<lambda>e. Send_json c e True) (event_buffer h)"
    by (intro effects_of_append) simp
  then show ?thesis using r by (simp add: replay_buffer_fields)
qed

lemma delivered_Cons_other [simp]:
  "delivered c (Conn_add c' # fx) = delivered c fx"
  "delivered c (Buffer_append e # fx) = delivered c fx"
  "delivered c (Buffer_pop e # fx) = delivered c fx"
  "delivered c (Conn_difference_update ds # fx) = delivered c fx"
  "delivered c (Conn_remove c' # fx) = delivered c fx"
  by (simp_all add: delivered_def)

lemma delivered_append: "delivered c (xs @ ys) = delivered c xs @ delivered c ys"
  by (simp add: delivered_def sends_append)

lemma delivered_replay: "delivered c (map (\<lambda>e. Send_json c e True) evs) = evs"
  by (induction evs) (simp_all add: delivered_def)

section \<open>Deliveries to one connection\<close>

lemma set_add_set: "set (set_add c cs) = insert c (set cs)"
  by (auto simp: set_add_def)

lemma set_add_distinct: "distinct cs \<Longrightarrow> distinct (set_add c cs)"
  by (simp add: set_add_def)

lemma broadcast_trace_extends:
  "\<exists>h'. broadcast_to_websockets send data h = Inr h' \<and> trace h' = trace h @ effects_of h h'"
proof -
  obtain oks ds h' where r: "broadcast_to_websockets send data h = Inr h'"
    and t: "trace h' = trace (store_event data h) @ wire data (active_connections h) oks @
                  [Conn_difference_update ds]"
    using broadcast_shape [of h send data] by blast
  have "trace h' = trace h @ drop (length (trace h)) (trace h')"
    by (simp add: t store_event_trace)
  then show ?thesis using r by (simp add: effects_of_def)
qed

lemma open_trace_extends:
  "\<exists>h'. websocket_endpoint_open send c h = Inr h' \<and> trace h' = trace h @ effects_of h h'"
proof -
  let ?h1 = "h\<lparr>active_connections := set_add c (active_connections h),
               trace := trace h @ [Conn_add c]\<rparr>"
  let ?h' = "replay_buffer send c (event_buffer h) ?h1"
  have r: "websocket_endpoint_open send c h = Inr ?h'"
    by (simp add: websocket_endpoint_open_def Let_def)
  have "\<exists>fx. trace ?h' = trace ?h1 @ fx"
    using replay_buffer_trace [of send c "event_buffer h" ?h1] by blast
  then obtain fx where "trace ?h' = trace h @ Conn_add c # fx" by auto
  then have "trace ?h' = trace h @ drop (length (trace h)) (trace ?h')" by simp
  then show ?thesis using r by (simp add: effects_of_def)
qed

lemma effects_of_trans:
  "trace h1 = trace h @ effects_of h h1 \<Longrightarrow> trace h2 = trace h1 @ effects_of h1 h2 \<Longrightarrow>
   effects_of h h2 = effects_of h h1 @ effects_of h1 h2"
proof -
  assume a: "trace h1 = trace h @ effects_of h h1"
    and b: "trace h2 = trace h1 @ effects_of h1 h2"
  have "trace h2 = trace h @ (effects_of h h1 @ effects_of h1 h2)"
    using a b by (metis append.assoc)
  then show ?thesis by (rule effects_of_append)
qed

lemma delivered_wire_absent:
  "c \<notin> set cs \<Longrightarrow> delivered c (wire data cs oks) = []"
proof -
  assume "c \<notin> set cs"
  then have "\<forall>p \<in> set (zip cs oks). fst p \<noteq> c"
    by (auto dest: set_zip_leftD)
  then have "filter (\<lambda>(c', e, ok). c' = c \<and> ok) (sends (wire data cs oks)) = []"
    by (auto simp: sends_wire filter_empty_conv)
  then show ?thesis by (simp add: delivered_def)
qed

lemma wire_Cons:
  "wire data (x # xs) (ok # oks) = Send_json x data ok # wire data xs oks"
  by (simp add: wire_def)

lemma delivered_Send:
  "delivered c (Send_json x e ok # fx) = (if x = c \<and> ok then e # delivered c fx else delivered c fx)"
  by (simp add: delivered_def)

lemma delivered_wire_once:
  "length cs = length oks \<Longrightarrow> distinct cs \<Longrightarrow> c \<in> set cs \<Longrightarrow>
   (c, False) \<notin> set (zip cs oks) \<Longrightarrow> delivered c (wire data cs oks) = [data]"
proof (induction cs oks rule: list_induct2)
  case Nil
  then show ?case by simp
next
  case (Cons x xs ok oks)
  show ?case
  proof (cases "x = c")
    case True
    then have "ok" using Cons.prems by auto
    moreover have "c \<notin> set xs" using True Cons.prems by simp
    ultimately show ?thesis
      using True by (simp add: wire_Cons delivered_Send delivered_wire_absent)
  next
    case False
    then have "delivered c (wire data xs oks) = [data]"
      using Cons.IH Cons.prems by simp
    then show ?thesis using False by (simp add: wire_Cons delivered_Send)
  qed
qed

lemma broadcast_delivers_once:
  assumes "\<forall>e w. fst (send c e w)" and "distinct (active_connections h)"
    and "c \<in> set (active_connections h)"
  shows "\<exists>h'. broadcast_to_websockets send data h = Inr h' \<and>
           delivered c (effects_of h h') = [data] \<and> c \<in> set (active_connections h')"
proof -
  let ?cs = "active_connections h"
  obtain oks ds h' where l: "length oks = length ?cs"
    and d: "set ds = {c. (c, False) \<in> set (zip ?cs oks)}"
    and o: "\<forall>p \<in> set (zip ?cs oks). \<exists>w. fst (send (fst p) data w) = snd p"
    and r: "broadcast_to_websockets send data h = Inr h'"
    and a: "active_connections h' = filter (\<lambda>c. c \<notin> set ds) ?cs"
    and t: "effects_of h h' =
       Buffer_append data #
         (if length (event_buffer h) \<ge> MAX_BUFFER_SIZE
          then [Buffer_pop (hd (event_buffer h @ [data]))] else []) @
         wire data ?cs oks @ [Conn_difference_update ds]"
    using broadcast_effects [of h send data] by auto
  have nf: "(c, False) \<notin> set (zip ?cs oks)"
  proof
    assume "(c, False) \<in> set (zip ?cs oks)"
    then obtain w where "fst (send c data w) = False" using o by fastforce
    then show False using assms(1) by simp
  qed
  have "delivered c (wire data ?cs oks) = [data]"
    using delivered_wire_once [of ?cs oks c data] l assms(2,3) nf by simp
  then have "delivered c (effects_of h h') = [data]"
    unfolding t by (simp add: delivered_append delivered_def [of c "[]"])
  moreover have "c \<in> set (active_connections h')"
    using a d nf assms(3) by simp
  ultimately show ?thesis using r by blast
qed


section \<open>The service calling the hub\<close>


section \<open>The loops as written, when nothing happens during their waits\<close>

lemma quiet_Cons: "quiet (op # sched) \<longleftrightarrow> op = None \<and> quiet sched"
  by (simp add: quiet_def)










section \<open>The replay as written, with events ingested during its waits\<close>

lemma replay_buffer_live_idle:
  "replay_buffer_live send c i [] h = replay_buffer send c (drop i (event_buffer h)) h"
proof (induction "length (event_buffer h) - i" arbitrary: i h)
  case 0
  then show ?case by (simp add: replay_buffer_live.simps)
next
  case (Suc n)
  then have lt: "i < length (event_buffer h)" by simp
  obtain ok w where s: "send c (event_buffer h ! i) (world h) = (ok, w)"
    by (cases "send c (event_buffer h ! i) (world h)")
  let ?h = "h\<lparr>world := w, trace := trace h @ [Send_json c (event_buffer h ! i) ok]\<rparr>"
  have d: "drop i (event_buffer h) = event_buffer h ! i # drop (Suc i) (event_buffer h)"
    using lt by (simp add: Cons_nth_drop_Suc)
  have "n = length (event_buffer ?h) - Suc i" using Suc.hyps(2) by simp
  then have ih: "replay_buffer_live send c (Suc i) [] ?h =
      replay_buffer send c (drop (Suc i) (event_buffer ?h)) ?h"
    by (rule Suc.hyps(1))
  have "replay_buffer_live send c i [] h =
      (if ok then replay_buffer_live send c (Suc i) [] ?h else ?h)"
    using lt s by (subst replay_buffer_live.simps) (simp add: Let_def)
  also have "\<dots> = replay_buffer send c (drop i (event_buffer h)) h"
    using ih s by (cases ok) (simp_all add: d Let_def)
  finally show ?case .
qed

lemma replay_recording_world:
  "world (replay_buffer (send_recording []) c evs h) = world h @ map (Pair c) evs"
  by (induction evs arbitrary: h) (simp_all add: send_recording_def Let_def)

lemma ingested_one_at_capacity:
  "length xs = 49 \<Longrightarrow>
   ingested_meanwhile (send_recording []) [e]
     \<lparr>active_connections = [c], event_buffer = x # xs, world = w, trace = t\<rparr> =
   \<lparr>active_connections = [c], event_buffer = xs @ [e], world = w @ [(c, e)],
    trace = t @ [Buffer_append e, Buffer_pop x, Send_json c e True,
                 Conn_difference_update []]\<rparr>"
  by (simp add: broadcast_to_websockets_live_def store_event_def Let_def MAX_BUFFER_SIZE_def
      send_recording_def set_difference_update_def)

lemma full_buffer_skip:
  assumes "length xs = 48"
  shows "world (websocket_endpoint_open_live (send_recording []) c [[e]]
           (hub_recording [] (x # y # xs))) =
         (c, x) # (c, e) # map (Pair c) (xs @ [e])"
proof -
  let ?send = "send_recording [] :: ('a, (ws \<times> 'a) list) send_json"
  let ?h1 = "\<lparr>active_connections = [c], event_buffer = x # y # xs,
              world = ([] :: (ws \<times> 'a) list), trace = [Conn_add c]\<rparr>"
  let ?h1a = "\<lparr>active_connections = [c], event_buffer = x # y # xs, world = [(c, x)],
      trace = [Conn_add c] @ [Send_json c x True]\<rparr>"
  let ?h2 = "\<lparr>active_connections = [c], event_buffer = (y # xs) @ [e],
      world = [(c, x)] @ [(c, e)],
      trace = ([Conn_add c] @ [Send_json c x True]) @
              [Buffer_append e, Buffer_pop x, Send_json c e True,
               Conn_difference_update []]\<rparr>"
  have o: "websocket_endpoint_open_live ?send c [[e]] (hub_recording [] (x # y # xs)) =
      replay_buffer_live ?send c 0 [[e]] ?h1"
    by (simp add: websocket_endpoint_open_live_def hub_recording_def set_add_def Let_def)
  have "replay_buffer_live ?send c 0 [[e]] ?h1 =
      replay_buffer_live ?send c (Suc 0) [] (ingested_meanwhile ?send [e] ?h1a)"
    by (subst replay_buffer_live.simps)
       (simp add: send_recording_def Let_def del: ingested_meanwhile.simps)
  also have "ingested_meanwhile ?send [e] ?h1a = ?h2"
    using assms by (intro ingested_one_at_capacity) simp
  also have "replay_buffer_live ?send c (Suc 0) [] ?h2 =
      replay_buffer ?send c (drop (Suc 0) (event_buffer ?h2)) ?h2"
    by (rule replay_buffer_live_idle)
  finally have "world (websocket_endpoint_open_live ?send c [[e]]
        (hub_recording [] (x # y # xs))) =
      world ?h2 @ map (Pair c) (drop (Suc 0) (event_buffer ?h2))"
    using o by (simp only: replay_recording_world)
  then show ?thesis by simp
qed

lemma upt_50: "[0 ..< 50] = 0 # 1 # [2 ..< 50]"
  by (simp add: upt_conv_Cons)

section \<open>The registry stays a set, and the tolerant ways of removing\<close>

lemma open_distinct:
  "distinct (active_connections h) \<Longrightarrow> websocket_endpoint_open send c h = Inr h' \<Longrightarrow>
   distinct (active_connections h')"
  using open_effects [of send c h] by (auto simp: set_add_distinct)

lemma broadcast_distinct:
  "distinct (active_connections h) \<Longrightarrow> broadcast_to_websockets send data h = Inr h' \<Longrightarrow>
   distinct (active_connections h')"
  using broadcast_shape [of h send data] by auto

lemma close_registered:
  "c \<in> set (active_connections h) \<Longrightarrow>
   \<exists>h'. websocket_endpoint_close c h = Inr h' \<and>
        active_connections h' = removeAll c (active_connections h)"
  by (simp add: websocket_endpoint_close_def set_remove_def)

lemma close_distinct:
  "distinct (active_connections h) \<Longrightarrow> websocket_endpoint_close c h = Inr h' \<Longrightarrow>
   distinct (active_connections h')"
  by (auto simp: websocket_endpoint_close_def set_remove_def distinct_removeAll
      split: if_splits)

lemma set_difference_update_absent:
  "set ds \<inter> set cs = {} \<Longrightarrow> set_difference_update cs ds = cs"
  by (auto simp: set_difference_update_def filter_id_conv)

lemma unregister_callback_absent:
  "cb \<notin> set (callbacks svc) \<Longrightarrow> unregister_callback cb svc = svc"
  by (simp add: unregister_callback_def)

section \<open>The fan-out as written, under any schedule\<close>






section \<open>The opening phase when nothing is ingested during the replay\<close>

lemma open_live_idle:
  "websocket_endpoint_open send c h = Inr (websocket_endpoint_open_live send c [] h)"
  by (simp add: websocket_endpoint_open_def websocket_endpoint_open_live_def Let_def
      replay_buffer_live_idle)

lemma undisturbed_replay_precedes_live_events:
  assumes "\<forall>e w. fst (send c e w)" and "distinct (active_connections h)"
  shows "\<exists>h1 h2. websocket_endpoint_open send c h = Inr h1 \<and>
           delivered c (effects_of h h1) = event_buffer h \<and>
           broadcast_to_websockets send later h1 = Inr h2 \<and>
           delivered c (effects_of h1 h2) = [later] \<and>
           delivered c (effects_of h h2) = event_buffer h @ [later]"
proof -
  obtain h1 where r1: "websocket_endpoint_open send c h = Inr h1"
    and a1: "active_connections h1 = set_add c (active_connections h)"
    and t1: "effects_of h h1 = Conn_add c # map (\<lambda>e. Send_json c e True) (event_buffer h)"
    using open_effects_no_failure [where send = send and c = c and h = h] assms(1) by blast
  have x1: "trace h1 = trace h @ effects_of h h1"
    using open_trace_extends [of send c h] r1 by simp
  have d1: "delivered c (effects_of h h1) = event_buffer h"
    using t1 by (simp add: delivered_replay)
  have "distinct (active_connections h1)" "c \<in> set (active_connections h1)"
    using a1 assms(2) by (simp_all add: set_add_distinct set_add_set)
  then obtain h2 where r2: "broadcast_to_websockets send later h1 = Inr h2"
    and d2: "delivered c (effects_of h1 h2) = [later]"
    using broadcast_delivers_once [where send = send and c = c and h = h1 and data = later]
      assms(1) by blast
  have x2: "trace h2 = trace h1 @ effects_of h1 h2"
    using broadcast_trace_extends [of send later h1] r2 by simp
  have "delivered c (effects_of h h2) = event_buffer h @ [later]"
    using effects_of_trans [OF x1 x2] d1 d2 by (simp add: delivered_append)
  then show ?thesis using r1 d1 r2 d2 by blast
qed

section \<open>The claims\<close>

text \<open>
  C6. The replay buffer never grows past its capacity of 50: one call of
  \<^verbatim>\<open>broadcast_to_websockets\<close> on a buffer of at most 50 events leaves at most 50 events.
  Below capacity nothing is evicted; at capacity the oldest event, the head of the list,
  is the one that is evicted, and the new event is the last.
\<close>

theorem buffer_never_exceeds_capacity:
  "MAX_BUFFER_SIZE = 50 \<and>
   (\<exists>h'. broadcast_to_websockets send data h = Inr h' \<and>
      (length (event_buffer h) \<le> MAX_BUFFER_SIZE \<longrightarrow>
         length (event_buffer h') \<le> MAX_BUFFER_SIZE) \<and>
      (length (event_buffer h) < MAX_BUFFER_SIZE \<longrightarrow>
         event_buffer h' = event_buffer h @ [data]) \<and>
      (length (event_buffer h) = MAX_BUFFER_SIZE \<longrightarrow>
         (\<exists>oldest rest. event_buffer h = oldest # rest \<and>
            event_buffer h' = rest @ [data] \<and>
            Buffer_pop oldest \<in> set (effects_of h h'))))"
proof -
  obtain oks ds h' where r: "broadcast_to_websockets send data h = Inr h'"
    and b: "event_buffer h' = event_buffer (store_event data h)"
    and t: "effects_of h h' =
       Buffer_append data #
         (if length (event_buffer h) \<ge> MAX_BUFFER_SIZE
          then [Buffer_pop (hd (event_buffer h @ [data]))] else []) @
         wire data (active_connections h) oks @ [Conn_difference_update ds]"
    using broadcast_effects [of h send data] by blast
  have 1: "length (event_buffer h) \<le> MAX_BUFFER_SIZE \<longrightarrow>
      length (event_buffer h') \<le> MAX_BUFFER_SIZE"
    using b store_event_length [of h data] by simp
  have 2: "length (event_buffer h) < MAX_BUFFER_SIZE \<longrightarrow>
      event_buffer h' = event_buffer h @ [data]"
    using b by (simp add: store_event_buffer)
  have 3: "length (event_buffer h) = MAX_BUFFER_SIZE \<longrightarrow>
      (\<exists>oldest rest. event_buffer h = oldest # rest \<and>
            event_buffer h' = rest @ [data] \<and>
            Buffer_pop oldest \<in> set (effects_of h h'))"
  proof
    assume l: "length (event_buffer h) = MAX_BUFFER_SIZE"
    then obtain oldest rest where c: "event_buffer h = oldest # rest"
      by (cases "event_buffer h") (simp_all add: MAX_BUFFER_SIZE_def)
    have "event_buffer h' = rest @ [data]"
      using b l c by (simp add: store_event_buffer)
    moreover have "Buffer_pop oldest \<in> set (effects_of h h')"
      using t l c by simp
    ultimately show "\<exists>oldest rest. event_buffer h = oldest # rest \<and>
            event_buffer h' = rest @ [data] \<and>
            Buffer_pop oldest \<in> set (effects_of h h')"
      using c by blast
  qed
  show ?thesis using r 1 2 3 by (simp add: MAX_BUFFER_SIZE_def)
qed

theorem buffer_never_exceeds_capacity_witness:
  "length (event_buffer (hub_with [1, 2] [0 ..< 50])) = MAX_BUFFER_SIZE \<and>
   (\<exists>h'. broadcast_to_websockets send_ok 50 (hub_with [1, 2] [0 ..< 50]) = Inr h' \<and>
      length (event_buffer h') \<le> MAX_BUFFER_SIZE \<and>
      (\<exists>oldest rest. [0 ..< 50] = oldest # rest \<and>
         event_buffer h' = rest @ [50] \<and>
         Buffer_pop oldest \<in> set (effects_of (hub_with [1, 2] [0 ..< 50]) h')))"
  using buffer_never_exceeds_capacity [of send_ok 50 "hub_with [1, 2] [0 ..< 50]"]
  by (simp add: hub_with_def MAX_BUFFER_SIZE_def)

text \<open>
  C1. After more than 50 events have been ingested, one after the other, into a hub whose
  buffer was within its capacity, the recent-events query returns exactly the last 50 of
  them, in the order of their ingestion.
\<close>

theorem recent_events_are_last_capacity:
  assumes "length (event_buffer h) \<le> MAX_BUFFER_SIZE"
    and "MAX_BUFFER_SIZE < length evs"
  shows "\<exists>h'. ingest_all send evs h = Inr h' \<and>
           fst (get_recent_events (svc, h')) =
             \<lparr>events = drop (length evs - MAX_BUFFER_SIZE) evs, count = MAX_BUFFER_SIZE\<rparr>"
proof -
  obtain h' where r: "ingest_all send evs h = Inr h'"
    and b: "event_buffer h' =
          drop (length (event_buffer h) + length evs - MAX_BUFFER_SIZE) (event_buffer h @ evs)"
    using ingest_all_buffer [OF assms(1), of send evs] by blast
  have "length (event_buffer h) + length evs - MAX_BUFFER_SIZE - length (event_buffer h) =
      length evs - MAX_BUFFER_SIZE"
    using assms(2) by simp
  then have "event_buffer h' = drop (length evs - MAX_BUFFER_SIZE) evs"
    using b assms(2) by simp
  moreover have "length (drop (length evs - MAX_BUFFER_SIZE) evs) = MAX_BUFFER_SIZE"
    using assms(2) by simp
  ultimately show ?thesis using r by (simp add: get_recent_events_def)
qed

theorem recent_events_are_last_capacity_witness:
  "length (event_buffer (hub_with [1, 2] ([] :: nat list))) \<le> MAX_BUFFER_SIZE \<and>
   MAX_BUFFER_SIZE < length [0 ..< 53] \<and>
   (\<exists>h'. ingest_all send_ok [0 ..< 53] (hub_with [1, 2] []) = Inr h' \<and>
      fst (get_recent_events (None, h')) = \<lparr>events = [3 ..< 53], count = 50\<rparr>)"
  using recent_events_are_last_capacity [of "hub_with [1, 2] ([] :: nat list)" "[0 ..< 53]"
      send_ok None]
  by (simp add: hub_with_def MAX_BUFFER_SIZE_def)


text \<open>
  C9. Whatever the registry holds and whatever the sends do, the first thing one call of
  \<^verbatim>\<open>broadcast_to_websockets\<close> does is to append the event to the buffer, before any
  send. The call returns with the event as the last element of the buffer, where the
  recent-events query reads it and where the replay to a connection opened afterwards
  finds it.
\<close>

theorem event_is_buffered_before_any_send:
  "\<exists>h' fx. broadcast_to_websockets send data h = Inr h' \<and>
     effects_of h h' = Buffer_append data # fx \<and>
     event_buffer h' \<noteq> [] \<and> last (event_buffer h') = data \<and>
     events (fst (get_recent_events (svc, h'))) = event_buffer h' \<and>
     ((\<forall>e w. fst (send' c e w)) \<longrightarrow>
        (\<exists>h''. websocket_endpoint_open send' c h' = Inr h'' \<and>
           delivered c (effects_of h' h'') = event_buffer h'))"
proof -
  obtain oks ds h' where r: "broadcast_to_websockets send data h = Inr h'"
    and b: "event_buffer h' = event_buffer (store_event data h)"
    and t: "effects_of h h' =
       Buffer_append data #
         (if length (event_buffer h) \<ge> MAX_BUFFER_SIZE
          then [Buffer_pop (hd (event_buffer h @ [data]))] else []) @
         wire data (active_connections h) oks @ [Conn_difference_update ds]"
    using broadcast_effects [of h send data] by blast
  have n: "event_buffer h' \<noteq> [] \<and> last (event_buffer h') = data"
  proof (cases "event_buffer h")
    case Nil
    then show ?thesis using b by (simp add: store_event_buffer MAX_BUFFER_SIZE_def)
  next
    case (Cons x xs)
    then show ?thesis using b by (simp add: store_event_buffer)
  qed
  have q: "events (fst (get_recent_events (svc, h'))) = event_buffer h'"
    by (simp add: get_recent_events_def)
  have a: "(\<forall>e w. fst (send' c e w)) \<longrightarrow>
        (\<exists>h''. websocket_endpoint_open send' c h' = Inr h'' \<and>
           delivered c (effects_of h' h'') = event_buffer h')"
  proof
    assume "\<forall>e w. fst (send' c e w)"
    then obtain h'' where "websocket_endpoint_open send' c h' = Inr h''"
      and "effects_of h' h'' = Conn_add c # map (\<lambda>e. Send_json c e True) (event_buffer h')"
      using open_effects_no_failure [of send' c h'] by blast
    then show "\<exists>h''. websocket_endpoint_open send' c h' = Inr h'' \<and>
           delivered c (effects_of h' h'') = event_buffer h'"
      by (simp add: delivered_replay)
  qed
  show ?thesis using r t n q a by blast
qed

theorem event_is_buffered_before_any_send_witness:
  "(\<forall>e w. fst (send_ok (3 :: nat) (e :: nat) w)) \<and>
   (\<exists>h' fx. broadcast_to_websockets send_broken (7 :: nat) (hub_with [] []) = Inr h' \<and>
     effects_of (hub_with [] []) h' = Buffer_append 7 # fx \<and>
     last (event_buffer h') = 7 \<and>
     (\<exists>h''. websocket_endpoint_open send_ok 3 h' = Inr h'' \<and>
           delivered 3 (effects_of h' h'') = event_buffer h'))"
proof -
  have s: "\<forall>e w. fst (send_ok (3 :: nat) (e :: nat) w)"
    by (simp add: send_ok_def)
  with event_is_buffered_before_any_send
    [of send_broken "7 :: nat" "hub_with [] []" None send_ok 3]
  show ?thesis by blast
qed




text \<open>
  C4. The handler of \<^verbatim>\<open>WebSocketDisconnect\<close> calls \<^verbatim>\<open>set.remove\<close>, which raises
  \<^verbatim>\<open>KeyError\<close> for a connection that the cleanup of a fan-out has already removed:
  connection 1 is opened, the send of event 5 to it fails and the cleanup removes it, then
  its disconnect handler runs.
\<close>

theorem close_after_cleanup_raises_KeyError:
  "websocket_endpoint_open send_broken 1 (hub_with [] ([] :: nat list)) =
     Inr \<lparr>active_connections = [1], event_buffer = [], world = (), trace = [Conn_add 1]\<rparr> \<and>
   broadcast_to_websockets send_broken 5
       \<lparr>active_connections = [1], event_buffer = ([] :: nat list), world = (),
        trace = [Conn_add 1]\<rparr> =
     Inr \<lparr>active_connections = [], event_buffer = [5], world = (),
          trace = [Conn_add 1, Buffer_append 5, Send_json 1 5 False,
                   Conn_difference_update [1]]\<rparr> \<and>
   websocket_endpoint_close 1
       \<lparr>active_connections = [], event_buffer = [5 :: nat], world = (),
        trace = [Conn_add 1, Buffer_append 5, Send_json 1 5 False,
                 Conn_difference_update [1]]\<rparr> =
     Inl (KeyError 1)"
  by (simp add: websocket_endpoint_open_def websocket_endpoint_close_def
      broadcast_to_websockets_def store_event_def Let_def hub_with_def send_broken_def
      send_ok_def set_add_def set_remove_def set_difference_update_def MAX_BUFFER_SIZE_def)


text \<open>
  C8, as amended. Registering a connection is idempotent by identity: opening a
  connection that is already in \<^verbatim>\<open>active_connections\<close> leaves the registry as it was,
  opening an absent one puts it there exactly once, and either way an event broadcast
  afterwards reaches it exactly once when its sends succeed. Registering a callback is
  not idempotent: \<^verbatim>\<open>register_callback\<close> appends, so the callback occurs once more in
  the list than before.
\<close>

theorem websocket_registration_is_idempotent:
  "(\<exists>h'. websocket_endpoint_open send c h = Inr h' \<and>
      (c \<in> set (active_connections h) \<longrightarrow> active_connections h' = active_connections h) \<and>
      (c \<notin> set (active_connections h) \<longrightarrow>
         active_connections h' = active_connections h @ [c] \<and>
         count_list (active_connections h') c = 1) \<and>
      (distinct (active_connections h) \<and> (\<forall>e w. fst (send c e w)) \<longrightarrow>
         (\<exists>h''. broadcast_to_websockets send data h' = Inr h'' \<and>
            delivered c (effects_of h' h'') = [data]))) \<and>
   callbacks (register_callback cb svc) = callbacks svc @ [cb] \<and>
   count_list (callbacks (register_callback cb svc)) cb = Suc (count_list (callbacks svc) cb)"
proof -
  obtain h' where r: "websocket_endpoint_open send c h = Inr h'"
    and a: "active_connections h' = set_add c (active_connections h)"
    using open_effects [of send c h] by blast
  have 1: "c \<in> set (active_connections h) \<longrightarrow> active_connections h' = active_connections h"
    using a by (simp add: set_add_def)
  have 2: "c \<notin> set (active_connections h) \<longrightarrow>
         active_connections h' = active_connections h @ [c] \<and>
         count_list (active_connections h') c = 1"
    using a by (simp add: set_add_def count_list_0_iff)
  have 3: "distinct (active_connections h) \<and> (\<forall>e w. fst (send c e w)) \<longrightarrow>
         (\<exists>h''. broadcast_to_websockets send data h' = Inr h'' \<and>
            delivered c (effects_of h' h'') = [data])"
  proof
    assume p: "distinct (active_connections h) \<and> (\<forall>e w. fst (send c e w))"
    then have "distinct (active_connections h')" "c \<in> set (active_connections h')"
      using a by (simp_all add: set_add_distinct set_add_set)
    then show "\<exists>h''. broadcast_to_websockets send data h' = Inr h'' \<and>
            delivered c (effects_of h' h'') = [data]"
      using broadcast_delivers_once [where send = send and c = c and h = h' and data = data] p
      by blast
  qed
  have 4: "callbacks (register_callback cb svc) = callbacks svc @ [cb]"
    by (simp add: register_callback_def)
  then have 5: "count_list (callbacks (register_callback cb svc)) cb =
      Suc (count_list (callbacks svc) cb)"
    by simp
  show ?thesis using r 1 2 3 4 5 by blast
qed

theorem websocket_registration_is_idempotent_witness:
  "1 \<in> set (active_connections (hub_with [1, 2] [''B''])) \<and>
   3 \<notin> set (active_connections (hub_with [1, 2] [''B''])) \<and>
   distinct (active_connections (hub_with [1, 2] [''B''])) \<and>
   (\<forall>e w. fst (send_ok (1 :: nat) (e :: string) w)) \<and>
   (\<exists>h'. websocket_endpoint_open send_ok 1 (hub_with [1, 2] [''B'']) = Inr h' \<and>
      active_connections h' = [1, 2] \<and>
      (\<exists>h''. broadcast_to_websockets send_ok ''E'' h' = Inr h'' \<and>
         delivered 1 (effects_of h' h'') = [''E''])) \<and>
   (\<exists>h'. websocket_endpoint_open send_ok 3 (hub_with [1, 2] [''B'']) = Inr h' \<and>
      active_connections h' = [1, 2, 3] \<and>
      count_list (active_connections h') 3 = 1)"
proof -
  let ?h = "hub_with [1, 2] [''B'']"
  have a: "active_connections ?h = [1, 2]"
    by (simp add: hub_with_def)
  have s: "\<forall>e w. fst (send_ok (1 :: nat) (e :: string) w)"
    by (simp add: send_ok_def)
  from websocket_registration_is_idempotent
    [where send = send_ok and c = 1 and h = ?h and data = "''E''"
      and cb = Broadcast_to_websockets and svc = init_service] a s
  have "\<exists>h'. websocket_endpoint_open send_ok 1 ?h = Inr h' \<and>
      active_connections h' = [1, 2] \<and>
      (\<exists>h''. broadcast_to_websockets send_ok ''E'' h' = Inr h'' \<and>
         delivered 1 (effects_of h' h'') = [''E''])"
    by auto
  moreover
  from websocket_registration_is_idempotent
    [where send = send_ok and c = 3 and h = ?h and data = "''E''"
      and cb = Broadcast_to_websockets and svc = init_service] a
  have "\<exists>h'. websocket_endpoint_open send_ok 3 ?h = Inr h' \<and>
      active_connections h' = [1, 2, 3] \<and>
      count_list (active_connections h') 3 = 1"
    by auto
  ultimately show ?thesis using a s by simp
qed

text \<open>
  C8 as stated, refuted: registering \<^verbatim>\<open>broadcast_to_websockets\<close> with a service that
  already has it changes the list of callbacks, and one upstream event is then buffered
  twice and sent twice to connection 1.
\<close>

theorem register_callback_twice_counterexample:
  "register_callback Broadcast_to_websockets
      \<lparr>callbacks = [Broadcast_to_websockets], is_connected = False\<rparr> =
     \<lparr>callbacks = [Broadcast_to_websockets, Broadcast_to_websockets], is_connected = False\<rparr> \<and>
   trace (snd (on_disconnect (call_callback send_ok)
      \<lparr>callbacks = [Broadcast_to_websockets, Broadcast_to_websockets], is_connected = False\<rparr>
      (hub_with [1] []))) =
     [Buffer_append [(''type'', Str ''system''), (''message'', Str ''Desconectado del live'')],
      Send_json 1 [(''type'', Str ''system''), (''message'', Str ''Desconectado del live'')] True,
      Conn_difference_update [],
      Buffer_append [(''type'', Str ''system''), (''message'', Str ''Desconectado del live'')],
      Send_json 1 [(''type'', Str ''system''), (''message'', Str ''Desconectado del live'')] True,
      Conn_difference_update []]"
  by (simp add: on_disconnect_def call_callback_def call_callback_live_def
      register_callback_def broadcast_to_websockets_live_def store_event_def Let_def hub_with_def
      send_ok_def set_difference_update_def MAX_BUFFER_SIZE_def disconnect_event_def)

text \<open>
  C10. The status query returns an answer in every state and leaves the state as it was;
  while \<^verbatim>\<open>tiktok_service\<close> is still \<^verbatim>\<open>None\<close> it reports \<^verbatim>\<open>connected\<close> as false.
\<close>

theorem get_status_is_total_and_pure:
  "snd (get_status config_username (tiktok_service, h)) = (tiktok_service, h) \<and>
   fst (get_status config_username (None, h)) =
     \<lparr>connected = False, username = config_username,
      active_websockets = length (active_connections h),
      buffered_events = length (event_buffer h)\<rparr> \<and>
   fst (get_status config_username (Some svc, h)) =
     \<lparr>connected = is_connected svc, username = config_username,
      active_websockets = length (active_connections h),
      buffered_events = length (event_buffer h)\<rparr>"
  by (simp add: get_status_def)





text \<open>
  C2. The fan-out (lines 38 to 42) iterates over the set \<^verbatim>\<open>active_connections\<close> itself
  and awaits inside the loop. First run: connections 1 and 2 are registered, the send to
  1 raises, and connection 3 joins (line 155) while that send is awaited. The iterator
  raises \<^verbatim>\<open>RuntimeError\<close>: no send to 2 is attempted, the exception leaves
  \<^verbatim>\<open>broadcast_to_websockets\<close>, and the cleanup of line 45 is skipped, so the failing
  connection 1 stays registered. Second run: connection 1 leaves (line 169) during the
  last awaited send, with the same exception and no cleanup. Third equation: the caller,
  \<^verbatim>\<open>_broadcast\<close>, sees the callable of the first run raise.
\<close>

theorem fanout_raises_when_registry_changes:
  "broadcast_to_websockets_live (send_recording [1]) (7 :: nat) [Some (Join 3)]
       (hub_recording [1, 2] []) =
     (Some RuntimeError,
      \<lparr>active_connections = [1, 2, 3], event_buffer = [7], world = [],
        trace = [Buffer_append 7, Send_json 1 7 False, Conn_add 3]\<rparr>) \<and>
   broadcast_to_websockets_live (send_recording [1]) (7 :: nat) [None, Some (Leave 1)]
       (hub_recording [1, 2] []) =
     (Some RuntimeError,
      \<lparr>active_connections = [2], event_buffer = [7], world = [(2, 7)],
        trace = [Buffer_append 7, Send_json 1 7 False, Send_json 2 7 True,
                 Conn_remove 1]\<rparr>) \<and>
   call_callback_live (send_recording [1]) [Some (Join 3)] Broadcast_to_websockets (7 :: nat)
       (hub_recording [1, 2] []) =
     (False,
      \<lparr>active_connections = [1, 2, 3], event_buffer = [7], world = [],
        trace = [Buffer_append 7, Send_json 1 7 False, Conn_add 3]\<rparr>)"
  by (simp add: call_callback_live_def broadcast_to_websockets_live_def store_event_def Let_def
      MAX_BUFFER_SIZE_def hub_recording_def send_recording_def set_add_def set_remove_def
      websocket_endpoint_close_def)

text \<open>
  C5. The endpoint registers the connection (line 155) and then iterates over the list
  \<^verbatim>\<open>event_buffer\<close> itself, awaiting each send (lines 158 to 160). First run: the buffer
  is B, C, D, no send fails, and E is ingested while the send of B is awaited. The new
  connection receives B, E, C, D, E: E arrives between the buffered events, and twice.
  Second run: the buffer is full (0 to 49) and event 50 is ingested while the send of 0
  is awaited; \<^verbatim>\<open>pop(0)\<close> shifts the list under the iterator, and the buffered event 1 is
  never sent to the new connection.
\<close>

theorem replay_repeats_and_skips_events:
  "websocket_endpoint_open_live (send_recording []) 1 [[''E'']]
       (hub_recording [] [''B'', ''C'', ''D'']) =
     \<lparr>active_connections = [1], event_buffer = [''B'', ''C'', ''D'', ''E''],
      world = [(1, ''B''), (1, ''E''), (1, ''C''), (1, ''D''), (1, ''E'')],
      trace = [Conn_add 1, Send_json 1 ''B'' True, Buffer_append ''E'',
               Send_json 1 ''E'' True, Conn_difference_update [],
               Send_json 1 ''C'' True, Send_json 1 ''D'' True, Send_json 1 ''E'' True]\<rparr> \<and>
   world (websocket_endpoint_open_live (send_recording []) 1 [[50]]
       (hub_recording [] [0 ..< 50])) =
     (1, 0) # (1, 50) # map (Pair 1) ([2 ..< 50] @ [50]) \<and>
   (1, 1) \<notin> set (world (websocket_endpoint_open_live (send_recording []) 1 [[50]]
       (hub_recording [] [0 ..< 50])))"
proof -
  have a: "websocket_endpoint_open_live (send_recording []) 1 [[''E'']]
       (hub_recording [] [''B'', ''C'', ''D'']) =
     \<lparr>active_connections = [1], event_buffer = [''B'', ''C'', ''D'', ''E''],
      world = [(1, ''B''), (1, ''E''), (1, ''C''), (1, ''D''), (1, ''E'')],
      trace = [Conn_add 1, Send_json 1 ''B'' True, Buffer_append ''E'',
               Send_json 1 ''E'' True, Conn_difference_update [],
               Send_json 1 ''C'' True, Send_json 1 ''D'' True, Send_json 1 ''E'' True]\<rparr>"
    by (simp add: websocket_endpoint_open_live_def replay_buffer_live.simps
        broadcast_to_websockets_live_def store_event_def Let_def MAX_BUFFER_SIZE_def
        hub_recording_def send_recording_def set_add_def set_difference_update_def)
  have b: "world (websocket_endpoint_open_live (send_recording []) 1 [[50]]
       (hub_recording [] [0 ..< 50])) =
     (1, 0) # (1, 50) # map (Pair 1) ([2 ..< 50] @ [50])"
    unfolding upt_50 by (rule full_buffer_skip) simp
  have c: "(1, 1) \<notin> set (world (websocket_endpoint_open_live (send_recording []) 1 [[50]]
       (hub_recording [] [0 ..< 50])))"
    unfolding b by auto
  show ?thesis using a b c by blast
qed


end
